theory Spec2Isabelle
  imports Main "HOL-Library.Word"
begin

section \<open>JavaScript strings\<close>

text \<open>
  A JavaScript string is a sequence of 16-bit code units; \<open>rawString[i]\<close>,
  \<open>length\<close> and \<open>substring\<close> all count code units.  \<open>js\<close> turns an
  ASCII literal into such a sequence.
\<close>

type_synonym unit16 = "16 word"
type_synonym jsstring = "unit16 list"

definition js :: "string \<Rightarrow> jsstring" where
  "js = map of_char"

text \<open>\<open>String.prototype.substring(a, b)\<close>: both arguments are clamped to
  \<open>[0, length]\<close> and swapped when \<open>a > b\<close>; an \<open>undefined\<close> first argument
  is \<open>NaN\<close>, which counts as 0.\<close>

definition substring :: "jsstring \<Rightarrow> int \<Rightarrow> int \<Rightarrow> jsstring" where
  "substring s a b =
     (let n = int (length s);
          a' = max 0 (min a n);
          b' = max 0 (min b n);
          lo = min a' b';
          hi = max a' b'
      in take (nat (hi - lo)) (drop (nat lo) s))"

definition substringFrom :: "jsstring \<Rightarrow> int \<Rightarrow> jsstring" where
  "substringFrom s a = drop (nat (max 0 (min a (int (length s))))) s"

section \<open>The regular expressions\<close>

text \<open>
  Every regular expression of the source is a sequence of quantified character
  classes, so a pattern is a list of items: the class, the least and the
  greatest number of repetitions (\<open>None\<close>: unbounded) and whether the quantifier
  is greedy.  \<open>matchSeq\<close> is the backtracking matcher: a greedy item tries its
  longest repetition first, a lazy one its shortest, and the first choice for
  which the rest of the pattern matches wins.  It returns what each item
  consumed.  The flag says whether the pattern ends in \<open>$\<close>.
\<close>

datatype item = Item "unit16 \<Rightarrow> bool" nat "nat option" bool

fun firstSome :: "('a \<Rightarrow> 'b option) \<Rightarrow> 'a list \<Rightarrow> 'b option" where
  "firstSome f [] = None"
| "firstSome f (x # xs) = (case f x of Some y \<Rightarrow> Some y | None \<Rightarrow> firstSome f xs)"

definition counts :: "nat \<Rightarrow> nat \<Rightarrow> bool \<Rightarrow> nat list" where
  "counts lo hi greedy = (if greedy then rev [lo..<Suc hi] else [lo..<Suc hi])"

fun matchSeq :: "item list \<Rightarrow> bool \<Rightarrow> jsstring \<Rightarrow> jsstring list option" where
  "matchSeq [] dollar s = (if dollar \<and> s \<noteq> [] then None else Some [])"
| "matchSeq (Item P lo hi greedy # its) dollar s =
     (let avail = length (takeWhile P s);
          cur = (case hi of None \<Rightarrow> avail | Some h \<Rightarrow> min h avail)
      in firstSome
           (\<lambda>n. case matchSeq its dollar (drop n s) of
                  None \<Rightarrow> None
                | Some caps \<Rightarrow> Some (take n s # caps))
           (counts lo cur greedy))"

text \<open>A pattern without \<open>^\<close> is tried at every start position, leftmost first.\<close>

definition searchSeq :: "item list \<Rightarrow> bool \<Rightarrow> jsstring \<Rightarrow> jsstring list option" where
  "searchSeq its dollar s =
     firstSome (\<lambda>p. matchSeq its dollar (drop p s)) [0..<Suc (length s)]"

subsection \<open>Character classes\<close>

text \<open>\<open>\s\<close>: the white space and line terminator code units of ECMAScript.\<close>

definition isSpace :: "unit16 \<Rightarrow> bool" where
  "isSpace c \<longleftrightarrow>
     c = 0x09 \<or> c = 0x0A \<or> c = 0x0B \<or> c = 0x0C \<or> c = 0x0D \<or> c = 0x20 \<or>
     c = 0xA0 \<or> c = 0x1680 \<or> (0x2000 \<le> c \<and> c \<le> 0x200A) \<or>
     c = 0x2028 \<or> c = 0x2029 \<or> c = 0x202F \<or> c = 0x205F \<or> c = 0x3000 \<or>
     c = 0xFEFF"

text \<open>\<open>.\<close> without the \<open>s\<close> flag: anything but a line terminator.\<close>

definition isDot :: "unit16 \<Rightarrow> bool" where
  "isDot c \<longleftrightarrow> \<not> (c = 0x0A \<or> c = 0x0D \<or> c = 0x2028 \<or> c = 0x2029)"

text \<open>\<open>[a-zA-Z0-9_-]\<close>\<close>

definition isIdent :: "unit16 \<Rightarrow> bool" where
  "isIdent c \<longleftrightarrow>
     (0x61 \<le> c \<and> c \<le> 0x7A) \<or> (0x41 \<le> c \<and> c \<le> 0x5A) \<or>
     (0x30 \<le> c \<and> c \<le> 0x39) \<or> c = 0x5F \<or> c = 0x2D"

text \<open>\<open>[:\s,.(){}*+/%]\<close>\<close>

definition isDelim :: "unit16 \<Rightarrow> bool" where
  "isDelim c \<longleftrightarrow>
     c = 0x3A \<or> isSpace c \<or> c = 0x2C \<or> c = 0x2E \<or> c = 0x28 \<or> c = 0x29 \<or>
     c = 0x7B \<or> c = 0x7D \<or> c = 0x2A \<or> c = 0x2B \<or> c = 0x2F \<or> c = 0x25"

definition one :: "(unit16 \<Rightarrow> bool) \<Rightarrow> item" where
  "one P = Item P 1 (Some 1) True"

definition star :: "(unit16 \<Rightarrow> bool) \<Rightarrow> item" where
  "star P = Item P 0 None True"

definition plus :: "(unit16 \<Rightarrow> bool) \<Rightarrow> item" where
  "plus P = Item P 1 None True"

definition lazyStar :: "(unit16 \<Rightarrow> bool) \<Rightarrow> item" where
  "lazyStar P = Item P 0 None False"

subsection \<open>The five patterns\<close>

text \<open>
  Line 68, \<open>/(?:^|(?:\n)|(?:\r)|(?:\s-)|[:\s,.(){}*+/%])([a-zA-Z0-9_-]*)$/\<close>:
  at each start position the five alternatives are tried in order, \<open>^\<close> only
  at position 0.  The result is capture group 1 of the first match, \<open>None\<close>
  when \<open>exec\<close> returns \<open>null\<close>.
\<close>

definition functionNameAlts :: "(bool \<times> item list) list" where
  "functionNameAlts =
     [(True, []),
      (False, [one (\<lambda>c. c = 0x0A)]),
      (False, [one (\<lambda>c. c = 0x0D)]),
      (False, [one isSpace, one (\<lambda>c. c = 0x2D)]),
      (False, [one isDelim])]"

definition execFunctionName :: "jsstring \<Rightarrow> jsstring option" where
  "execFunctionName s =
     firstSome
       (\<lambda>p. firstSome
              (\<lambda>(bol, pre).
                 if bol \<and> p \<noteq> 0 then None
                 else map_option last (matchSeq (pre @ [star isIdent]) True (drop p s)))
              functionNameAlts)
       [0..<Suc (length s)]"

text \<open>Lines 95 and 109, \<open>search(/\n\s*$/) === -1\<close>.\<close>

definition noLineStartBefore :: "jsstring \<Rightarrow> bool" where
  "noLineStartBefore s \<longleftrightarrow>
     searchSeq [one (\<lambda>c. c = 0x0A), star isSpace] True s = None"

text \<open>
  Line 122, \<open>/^(\/\*+[!#]{0,1})(\s*)([\s\S]*?)(\s*?)(\*+\/)$/\<close>; the result is
  the five capture groups.
\<close>

definition execCssComment ::
  "jsstring \<Rightarrow> (jsstring \<times> jsstring \<times> jsstring \<times> jsstring \<times> jsstring) option" where
  "execCssComment s =
     (case matchSeq
             [one (\<lambda>c. c = 0x2F), plus (\<lambda>c. c = 0x2A),
              Item (\<lambda>c. c = 0x21 \<or> c = 0x23) 0 (Some 1) True,
              star isSpace, lazyStar (\<lambda>c. True), lazyStar isSpace,
              plus (\<lambda>c. c = 0x2A), one (\<lambda>c. c = 0x2F)] True s of
        Some [a, b, c, l, t, r, d, e] \<Rightarrow> Some (a @ b @ c, l, t, r, d @ e)
      | _ \<Rightarrow> None)"

text \<open>Line 132, \<open>search(/^\s*?\S+\s*?\n/) !== -1\<close>.\<close>

definition codeBeforeNewline :: "jsstring \<Rightarrow> bool" where
  "codeBeforeNewline s \<longleftrightarrow>
     matchSeq [lazyStar isSpace, plus (\<lambda>c. \<not> isSpace c), lazyStar isSpace,
               one (\<lambda>c. c = 0x0A)] False s \<noteq> None"

text \<open>Line 147, \<open>/^(\/+)(\s*)(.*?)(\s*?)$/\<close>; the result is the four groups.\<close>

definition execLineComment ::
  "jsstring \<Rightarrow> (jsstring \<times> jsstring \<times> jsstring \<times> jsstring) option" where
  "execLineComment s =
     (case matchSeq [plus (\<lambda>c. c = 0x2F), star isSpace, lazyStar isDot,
                     lazyStar isSpace] True s of
        Some [a, l, t, r] \<Rightarrow> Some (a, l, t, r)
      | _ \<Rightarrow> None)"

section \<open>The scanner's data\<close>

text \<open>
  An entry of \<open>modesEntered\<close>: the mode and the character that opened it
  (\<open>null\<close> for the bottom entry, a quote, \<open>(\<close>, \<open>/*\<close> or \<open>//\<close>).
\<close>

datatype mode = NormalMode | StringMode | UrlMode | ParensMode | CommentMode

record frame =
  mode :: mode
  character :: "jsstring option"

datatype ctype = Css | DoubleSlash

record comment_raws =
  startToken :: jsstring
  left :: jsstring
  rtext :: jsstring
  right :: jsstring
  endToken :: "jsstring option"

text \<open>
  The \<open>comment\<close> object starts as \<open>{}\<close> and receives its properties in two
  steps, so every property is optional: \<open>None\<close> is a property not yet set.
  \<open>cend\<close> is \<open>end\<close>, \<open>ctext\<close> is \<open>text\<close> and \<open>rtext\<close> is \<open>raws.text\<close>.
\<close>

record comment =
  ctype :: "ctype option"
  start :: "nat option"
  inlineAfter :: "bool option"
  cend :: "int option"
  raws :: "comment_raws option"
  ctext :: "jsstring option"
  inlineBefore :: "bool option"

definition emptyComment :: comment where
  "emptyComment =
     \<lparr>ctype = None, start = None, inlineAfter = None, cend = None, raws = None,
      ctext = None, inlineBefore = None\<rparr>"

text \<open>
  The three local variables the loop updates.  \<open>modesEntered\<close> is kept in the
  order of the array: \<open>push\<close> appends, \<open>pop\<close> removes the last element and
  leaves an empty array empty.
\<close>

record scan_state =
  result :: "comment list"
  comment :: comment
  modesEntered :: "frame list"

datatype error = TypeError

definition push :: "frame \<Rightarrow> scan_state \<Rightarrow> scan_state" where
  "push f st = st\<lparr>modesEntered := modesEntered st @ [f]\<rparr>"

definition pop :: "scan_state \<Rightarrow> scan_state" where
  "pop st = st\<lparr>modesEntered := butlast (modesEntered st)\<rparr>"

text \<open>\<open>comment.start\<close> as a \<open>substring\<close> argument.\<close>

definition startArg :: "comment \<Rightarrow> int" where
  "startArg c = (case start c of None \<Rightarrow> 0 | Some k \<Rightarrow> int k)"

section \<open>The cases of the switch\<close>

text \<open>
  Each case takes the input, the index \<open>i\<close>, the last entry of \<open>modesEntered\<close>
  and the state, and returns the index and the state at the end of the loop
  body (the \<open>i++\<close> of the \<open>for\<close> statement is applied by \<open>loop\<close>), or the
  error thrown.  The code units compared: \<open>0x22\<close> and \<open>0x27\<close> are the double
  and the single quote, \<open>0x28\<close> and \<open>0x29\<close> the parentheses, \<open>0x2F\<close> the
  slash, \<open>0x2A\<close> the star, \<open>0x5C\<close> the backslash and \<open>0x0A\<close> the line
  feed.
\<close>

definition prevChar :: "jsstring \<Rightarrow> nat \<Rightarrow> unit16 option" where
  "prevChar rawString i = (if i > 0 then Some (rawString ! (i - 1)) else None)"

definition nextChar :: "jsstring \<Rightarrow> nat \<Rightarrow> unit16 option" where
  "nextChar rawString i =
     (if i + 1 < length rawString then Some (rawString ! (i + 1)) else None)"

definition caseQuote ::
  "jsstring \<Rightarrow> nat \<Rightarrow> frame \<Rightarrow> scan_state \<Rightarrow> error + nat \<times> scan_state" where
  "caseQuote rawString i cur st =
     (if mode cur = CommentMode then Inr (i, st)
      else if mode cur = StringMode \<and> character cur = Some [rawString ! i] \<and>
              prevChar rawString i \<noteq> Some 0x5C
      then Inr (i, pop st)
      else Inr (i, push \<lparr>mode = StringMode, character = Some [rawString ! i]\<rparr> st))"

definition caseOpenParen ::
  "jsstring \<Rightarrow> nat \<Rightarrow> frame \<Rightarrow> scan_state \<Rightarrow> error + nat \<times> scan_state" where
  "caseOpenParen rawString i cur st =
     (if mode cur = CommentMode \<or> mode cur = StringMode then Inr (i, st)
      else case execFunctionName (substring rawString 0 (int i)) of
             None \<Rightarrow> Inl TypeError
           | Some functionName \<Rightarrow>
               Inr (i, push \<lparr>mode = (if functionName = js ''url'' then UrlMode else ParensMode),
                             character = Some (js ''('')\<rparr> st))"

definition caseCloseParen ::
  "jsstring \<Rightarrow> nat \<Rightarrow> frame \<Rightarrow> scan_state \<Rightarrow> error + nat \<times> scan_state" where
  "caseCloseParen rawString i cur st =
     (if mode cur = CommentMode \<or> mode cur = StringMode then Inr (i, st)
      else Inr (i, pop st))"

definition caseSlash ::
  "jsstring \<Rightarrow> nat \<Rightarrow> frame \<Rightarrow> scan_state \<Rightarrow> error + nat \<times> scan_state" where
  "caseSlash rawString i cur st =
     (if mode cur = CommentMode then Inr (i, st)
      else if nextChar rawString i = Some 0x2A then
        Inr (i + 1,
             (push \<lparr>mode = CommentMode, character = Some (js ''/*'')\<rparr> st)
               \<lparr>comment := emptyComment
                  \<lparr>ctype := Some Css, start := Some i,
                   inlineAfter :=
                     Some (noLineStartBefore (substring rawString 0 (int i)))\<rparr>\<rparr>)
      else if nextChar rawString i = Some 0x2F then
        (if mode cur = UrlMode then Inr (i, st)
         else
           Inr (i + 1,
                (push \<lparr>mode = CommentMode, character = Some (js ''//'')\<rparr> st)
                  \<lparr>comment := emptyComment
                     \<lparr>ctype := Some DoubleSlash, start := Some i,
                      inlineAfter :=
                        Some (noLineStartBefore (substring rawString 0 (int i)))\<rparr>\<rparr>))
      else Inr (i, st))"

definition caseStar ::
  "jsstring \<Rightarrow> nat \<Rightarrow> frame \<Rightarrow> scan_state \<Rightarrow> error + nat \<times> scan_state" where
  "caseStar rawString i cur st =
     (if mode cur = CommentMode \<and> character cur = Some (js ''/*'') \<and>
         nextChar rawString i = Some 0x2F
      then
        (let end' = int i + 1;
             commentRaw = substring rawString (startArg (comment st)) (end' + 1)
         in case execCssComment commentRaw of
              None \<Rightarrow> Inl TypeError
            | Some (m1, m2, m3, m4, m5) \<Rightarrow>
                Inr (i + 1,
                     (pop st)
                       \<lparr>result := result st @
                          [(comment st)
                             \<lparr>cend := Some end',
                              raws := Some \<lparr>startToken = m1, left = m2, rtext = commentRaw,
                                            right = m4, endToken = Some m5\<rparr>,
                              ctext := Some m3,
                              inlineBefore :=
                                Some (codeBeforeNewline (substringFrom rawString (int i + 2)))\<rparr>],
                        comment := emptyComment\<rparr>))
      else Inr (i, st))"

definition caseDefault ::
  "jsstring \<Rightarrow> nat \<Rightarrow> frame \<Rightarrow> scan_state \<Rightarrow> error + nat \<times> scan_state" where
  "caseDefault rawString i cur st =
     (if (rawString ! i = 0x0A \<or> int i = int (length rawString) - 1) \<and>
         mode cur = CommentMode \<and> character cur = Some (js ''//'')
      then
        (let end' = (if rawString ! i = 0x0A then int i - 1 else int i);
             commentRaw = substring rawString (startArg (comment st)) (end' + 1)
         in case execLineComment commentRaw of
              None \<Rightarrow> Inl TypeError
            | Some (m1, m2, m3, m4) \<Rightarrow>
                Inr (i,
                     (pop st)
                       \<lparr>result := result st @
                          [(comment st)
                             \<lparr>cend := Some end',
                              raws := Some \<lparr>startToken = m1, left = m2, rtext = commentRaw,
                                            right = m4, endToken = None\<rparr>,
                              ctext := Some m3,
                              inlineBefore := Some False\<rparr>],
                        comment := emptyComment\<rparr>))
      else Inr (i, st))"

section \<open>The loop\<close>

text \<open>
  One run of the loop body at index \<open>i < rawString.length\<close>.  Reading
  \<open>.mode\<close> of \<open>modesEntered[lastModeIndex]\<close> throws a \<open>TypeError\<close> when the
  array is empty (the element is \<open>undefined\<close>).
\<close>

definition step :: "jsstring \<Rightarrow> nat \<Rightarrow> scan_state \<Rightarrow> error + nat \<times> scan_state" where
  "step rawString i st =
     (if modesEntered st = [] then Inl TypeError
      else
        (let ch = rawString ! i; cur = last (modesEntered st)
         in if ch = 0x22 \<or> ch = 0x27 then caseQuote rawString i cur st
            else if ch = 0x28 then caseOpenParen rawString i cur st
            else if ch = 0x29 then caseCloseParen rawString i cur st
            else if ch = 0x2F then caseSlash rawString i cur st
            else if ch = 0x2A then caseStar rawString i cur st
            else caseDefault rawString i cur st))"

function loop :: "jsstring \<Rightarrow> nat \<Rightarrow> scan_state \<Rightarrow> error + comment list" where
  "loop rawString i st =
     (if i < length rawString then
        (case step rawString i st of
           Inl e \<Rightarrow> Inl e
         | Inr (i', st') \<Rightarrow> loop rawString (i' + 1) st')
      else Inr (result st))"
  by pat_completeness auto
termination
  by (relation "measure (\<lambda>(rawString, i, st). length rawString - i)")
     (auto simp: step_def caseQuote_def caseOpenParen_def caseCloseParen_def
        caseSlash_def caseStar_def caseDefault_def Let_def
        split: if_splits option.splits prod.splits)

declare loop.simps [simp del]

definition initialState :: scan_state where
  "initialState =
     \<lparr>result = [], comment = emptyComment,
      modesEntered = [\<lparr>mode = NormalMode, character = None\<rparr>]\<rparr>"

definition findCommentsInRaws :: "jsstring \<Rightarrow> error + comment list" where
  "findCommentsInRaws rawString = loop rawString 0 initialState"

text \<open>
  The same loop stopped as soon as the index reaches \<open>n\<close>: the index and the
  local variables with which the loop of \<open>findCommentsInRaws\<close> arrives there.
  The body still sees the whole input.  The index returned is beyond \<open>n\<close> when
  a two-character marker begins at \<open>n - 1\<close>.
\<close>

function scanTo :: "jsstring \<Rightarrow> nat \<Rightarrow> nat \<Rightarrow> scan_state \<Rightarrow> error + nat \<times> scan_state" where
  "scanTo rawString n i st =
     (if i < n \<and> i < length rawString then
        (case step rawString i st of
           Inl e \<Rightarrow> Inl e
         | Inr (i', st') \<Rightarrow> scanTo rawString n (i' + 1) st')
      else Inr (i, st))"
  by pat_completeness auto
termination
  by (relation "measure (\<lambda>(rawString, n, i, st). length rawString - i)")
     (auto simp: step_def caseQuote_def caseOpenParen_def caseCloseParen_def
        caseSlash_def caseStar_def caseDefault_def Let_def
        split: if_splits option.splits prod.splits)

declare scanTo.simps [simp del]

section \<open>Properties of scanner states\<close>

text \<open>
  Every record emitted so far, and the comment under construction, starts
  before index \<open>i\<close>.
\<close>

definition startsBelow :: "nat \<Rightarrow> scan_state \<Rightarrow> bool" where
  "startsBelow i st \<longleftrightarrow>
     (\<forall>r\<in>set (result st). \<forall>k. start r = Some k \<longrightarrow> k < i) \<and>
     (\<forall>k. start (comment st) = Some k \<longrightarrow> k < i)"

text \<open>No record emitted so far, nor the comment under construction, starts at \<open>k\<close>.\<close>

definition startsAvoid :: "nat \<Rightarrow> scan_state \<Rightarrow> bool" where
  "startsAvoid k st \<longleftrightarrow>
     (\<forall>r\<in>set (result st). start r \<noteq> Some k) \<and> start (comment st) \<noteq> Some k"

text \<open>
  The record \<open>r\<close> has a start, an end and raws, the end lies after the start
  and inside the input, and \<open>raws.text\<close> is the substring between them.
\<close>

definition spanOf :: "jsstring \<Rightarrow> comment \<Rightarrow> bool" where
  "spanOf s r \<longleftrightarrow>
     (\<exists>k e rw. start r = Some k \<and> cend r = Some e \<and> raws r = Some rw \<and>
        int k < e \<and> e < int (length s) \<and> rtext rw = substring s (int k) (e + 1))"

text \<open>
  What holds when the loop body is entered at index \<open>i\<close>: the records emitted
  are spans, a comment entry is found on top of \<open>modesEntered\<close> only, and
  while one is on top the comment under construction began at least two
  characters before \<open>i\<close>.
\<close>

definition scanInv :: "jsstring \<Rightarrow> nat \<Rightarrow> scan_state \<Rightarrow> bool" where
  "scanInv s i st \<longleftrightarrow>
     (\<forall>r\<in>set (result st). spanOf s r) \<and>
     (\<forall>f\<in>set (butlast (modesEntered st)). mode f \<noteq> CommentMode) \<and>
     (modesEntered st \<noteq> [] \<and> mode (last (modesEntered st)) = CommentMode \<longrightarrow>
        (\<exists>k. start (comment st) = Some k \<and> k + 2 \<le> i))"

text \<open>The local variables after the scan of \<open>a{b:url(\<close>.\<close>

definition urlState :: scan_state where
  "urlState =
     initialState
       \<lparr>modesEntered :=
          [\<lparr>mode = NormalMode, character = None\<rparr>,
           \<lparr>mode = UrlMode, character = Some (js ''('')\<rparr>]\<rparr>"

section \<open>Unfolding the loop\<close>

lemmas case_defs = caseQuote_def caseOpenParen_def caseCloseParen_def
  caseSlash_def caseStar_def caseDefault_def

lemma js_markers: "js ''/*'' = [0x2F, 0x2A]" "js ''//'' = [0x2F, 0x2F]" "js ''/*'' \<noteq> js ''//''"
  by (simp_all add: js_def)

lemma nextChar_Some: "nextChar s i = Some c \<Longrightarrow> i + 1 < length s \<and> s ! (i + 1) = c"
  by (auto simp: nextChar_def split: if_splits)

lemma loop_step:
  "i < length s \<Longrightarrow> step s i st = Inr (i', st') \<Longrightarrow> loop s i st = loop s (i' + 1) st'"
  by (subst loop.simps) simp

lemma loop_done: "length s \<le> i \<Longrightarrow> loop s i st = Inr (result st)"
  by (subst loop.simps) simp

lemma step_index: "step s i st = Inr (i', st') \<Longrightarrow> i \<le> i'"
  unfolding step_def Let_def
  by (auto simp: case_defs Let_def split: if_splits option.splits prod.splits)

lemma loop_scanTo:
  "scanTo s n i st = Inr (i', st') \<Longrightarrow> loop s i st = loop s i' st'"
proof (induction s n i st rule: scanTo.induct)
  case (1 s n i st)
  show ?case
  proof (cases "i < n \<and> i < length s")
    case True
    then obtain i1 st1 where st: "step s i st = Inr (i1, st1)"
      and rest: "scanTo s n (i1 + 1) st1 = Inr (i', st')"
      using "1.prems" by (subst (asm) scanTo.simps) (auto split: sum.splits)
    have "loop s (i1 + 1) st1 = loop s i' st'"
      using "1.IH" True st rest by simp
    then show ?thesis using True st by (simp add: loop_step)
  next
    case False
    then show ?thesis using "1.prems" by (subst (asm) scanTo.simps) auto
  qed
qed

lemma findCommentsInRaws_scanTo:
  "scanTo s n 0 initialState = Inr (i, st) \<Longrightarrow> findCommentsInRaws s = loop s i st"
  by (simp add: findCommentsInRaws_def loop_scanTo)

lemma step_result_grows:
  "step s i st = Inr (i', st') \<Longrightarrow> \<exists>more. result st' = result st @ more"
  unfolding step_def Let_def
  by (auto simp: case_defs push_def pop_def Let_def
        split: if_splits option.splits prod.splits)

lemma loop_result_grows:
  "loop s i st = Inr rs \<Longrightarrow> \<exists>more. rs = result st @ more"
proof (induction s i st rule: loop.induct)
  case (1 s i st)
  show ?case
  proof (cases "i < length s")
    case True
    then obtain i1 st1 where st: "step s i st = Inr (i1, st1)"
      and rest: "loop s (i1 + 1) st1 = Inr rs"
      using "1.prems"(1) by (subst (asm) loop.simps) (auto split: sum.splits)
    obtain m1 where "result st1 = result st @ m1"
      using step_result_grows[OF st] by blast
    moreover have "\<exists>m2. rs = result st1 @ m2"
      using "1.IH" True st rest by simp
    ultimately show ?thesis by auto
  next
    case False
    then show ?thesis using "1.prems" by (subst (asm) loop.simps) auto
  qed
qed

section \<open>Where records start\<close>

lemma step_startsBelow:
  assumes "step s i st = Inr (i', st')" "startsBelow i st"
  shows "startsBelow (i' + 1) st'"
proof -
  have old: "\<forall>r\<in>set (result st). \<forall>k. start r = Some k \<longrightarrow> k < Suc i \<and> k < Suc (Suc i)"
    using assms(2) by (auto simp: startsBelow_def intro: less_SucI)
  have cur: "\<forall>k. start (comment st) = Some k \<longrightarrow> k < Suc i \<and> k < Suc (Suc i)"
    using assms(2) by (auto simp: startsBelow_def intro: less_SucI)
  show ?thesis
    using assms(1) old cur unfolding step_def Let_def
    by (auto simp: case_defs startsBelow_def push_def pop_def emptyComment_def Let_def
        split: if_splits option.splits prod.splits)
qed

lemma scanTo_startsBelow:
  "scanTo s n i st = Inr (i', st') \<Longrightarrow> startsBelow i st \<Longrightarrow> startsBelow i' st'"
proof (induction s n i st rule: scanTo.induct)
  case (1 s n i st)
  show ?case
  proof (cases "i < n \<and> i < length s")
    case True
    then obtain i1 st1 where st: "step s i st = Inr (i1, st1)"
      and rest: "scanTo s n (i1 + 1) st1 = Inr (i', st')"
      using "1.prems"(1) by (subst (asm) scanTo.simps) (auto split: sum.splits)
    have "startsBelow (i1 + 1) st1"
      using st "1.prems"(2) by (rule step_startsBelow)
    then show ?thesis
      using "1.IH" True st rest by simp
  next
    case False
    then show ?thesis using "1.prems" by (subst (asm) scanTo.simps) auto
  qed
qed

lemma startsBelow_initial: "startsBelow 0 initialState"
  by (simp add: startsBelow_def initialState_def emptyComment_def)

lemma scanTo_reached_startsBelow:
  "scanTo s n 0 initialState = Inr (i, st) \<Longrightarrow> startsBelow i st"
  using scanTo_startsBelow startsBelow_initial by blast

lemma startsBelow_avoid: "startsBelow i st \<Longrightarrow> startsAvoid i st"
  by (auto simp: startsBelow_def startsAvoid_def)

lemma step_startsAvoid:
  assumes "step s i st = Inr (i', st')" "startsAvoid k st" "k < i"
  shows "startsAvoid k st'"
  using assms unfolding step_def Let_def
  by (auto simp: case_defs startsAvoid_def push_def pop_def emptyComment_def Let_def
        split: if_splits option.splits prod.splits)

lemma loop_startsAvoid:
  "loop s i st = Inr rs \<Longrightarrow> startsAvoid k st \<Longrightarrow> k < i \<Longrightarrow> \<forall>r\<in>set rs. start r \<noteq> Some k"
proof (induction s i st rule: loop.induct)
  case (1 s i st)
  show ?case
  proof (cases "i < length s")
    case True
    then obtain i1 st1 where st: "step s i st = Inr (i1, st1)"
      and rest: "loop s (i1 + 1) st1 = Inr rs"
      using "1.prems"(1) by (subst (asm) loop.simps) (auto split: sum.splits)
    have "startsAvoid k st1" using st "1.prems"(2,3) by (rule step_startsAvoid)
    moreover have "k < i1 + 1" using step_index[OF st] "1.prems"(3) by simp
    ultimately show ?thesis using "1.IH" True st rest by simp
  next
    case False
    then show ?thesis using "1.prems" by (subst (asm) loop.simps) (auto simp: startsAvoid_def)
  qed
qed

section \<open>Single steps at a slash and inside a block comment\<close>

lemma step_slash_in_url:
  assumes "modesEntered st \<noteq> []" "mode (last (modesEntered st)) = UrlMode"
    "s ! i = 0x2F" "nextChar s i = Some 0x2F"
  shows "step s i st = Inr (i, st)"
  using assms by (simp add: step_def caseSlash_def)

lemma step_slash_opens_line_comment:
  assumes "modesEntered st \<noteq> []" "mode (last (modesEntered st)) \<noteq> UrlMode"
    "mode (last (modesEntered st)) \<noteq> CommentMode"
    "s ! i = 0x2F" "nextChar s i = Some 0x2F"
  shows "step s i st =
     Inr (i + 1,
          (push \<lparr>mode = CommentMode, character = Some (js ''//'')\<rparr> st)
            \<lparr>comment := emptyComment
               \<lparr>ctype := Some DoubleSlash, start := Some i,
                inlineAfter := Some (noLineStartBefore (substring s 0 (int i)))\<rparr>\<rparr>)"
  using assms by (simp add: step_def caseSlash_def)

lemma step_slash_opens_block_comment:
  assumes "modesEntered st \<noteq> []" "mode (last (modesEntered st)) \<noteq> CommentMode"
    "s ! i = 0x2F" "nextChar s i = Some 0x2A"
  shows "step s i st =
     Inr (i + 1,
          (push \<lparr>mode = CommentMode, character = Some (js ''/*'')\<rparr> st)
            \<lparr>comment := emptyComment
               \<lparr>ctype := Some Css, start := Some i,
                inlineAfter := Some (noLineStartBefore (substring s 0 (int i)))\<rparr>\<rparr>)"
  using assms by (simp add: step_def caseSlash_def)

lemma step_in_block_comment:
  assumes "modesEntered st \<noteq> []" "mode (last (modesEntered st)) = CommentMode"
    "character (last (modesEntered st)) = Some (js ''/*'')"
    "\<not> (s ! i = 0x2A \<and> nextChar s i = Some 0x2F)"
  shows "step s i st = Inr (i, st)"
  using assms
  by (auto simp: step_def case_defs Let_def js_markers)

lemma loop_across_block_comment:
  assumes "modesEntered st \<noteq> []" "mode (last (modesEntered st)) = CommentMode"
    "character (last (modesEntered st)) = Some (js ''/*'')"
    "\<forall>j\<in>{k..<m}. \<not> (s ! j = 0x2A \<and> nextChar s j = Some 0x2F)"
    "k \<le> m" "m \<le> length s"
  shows "loop s k st = loop s m st"
  using assms
proof (induction "m - k" arbitrary: k)
  case 0
  then show ?case by simp
next
  case (Suc d)
  then have k: "k < length s" "k < m" by simp_all
  have "\<not> (s ! k = 0x2A \<and> nextChar s k = Some 0x2F)"
    using Suc.prems(4) k by simp
  then have "step s k st = Inr (k, st)"
    using Suc.prems by (simp add: step_in_block_comment)
  then have "loop s k st = loop s (k + 1) st"
    using k by (simp add: loop_step)
  moreover have "loop s (k + 1) st = loop s m st"
    using Suc.hyps(2) Suc.prems k by (intro Suc.hyps(1)) auto
  ultimately show ?case by simp
qed

section \<open>The spans of the records\<close>

lemma all_frames_plain:
  assumes "xs \<noteq> []" "mode (last xs) \<noteq> CommentMode"
    "\<forall>f\<in>set (butlast xs). mode f \<noteq> CommentMode"
  shows "\<forall>f\<in>set xs. mode f \<noteq> CommentMode"
proof -
  have "xs = butlast xs @ [last xs]" using assms(1) by simp
  then have "set xs = set (butlast xs) \<union> {last xs}"
    by (metis list.simps(15) set_append empty_set)
  then show ?thesis using assms(2,3) by auto
qed

lemma popped_frames_plain:
  assumes "\<forall>f\<in>set (butlast xs). mode f \<noteq> CommentMode"
  shows "(\<forall>f\<in>set (butlast (butlast xs)). mode f \<noteq> CommentMode) \<and>
         (butlast xs \<noteq> [] \<longrightarrow> mode (last (butlast xs)) \<noteq> CommentMode)"
  using assms by (auto dest: in_set_butlastD)

lemma scanInv_pop:
  assumes "scanInv s i st"
  shows "scanInv s j (pop st)"
  using assms popped_frames_plain[of "modesEntered st"]
  by (auto simp: scanInv_def pop_def)

lemma scanInv_push_plain:
  assumes "scanInv s i st" "modesEntered st \<noteq> []"
    "mode (last (modesEntered st)) \<noteq> CommentMode" "mode f \<noteq> CommentMode"
  shows "scanInv s j (push f st)"
  using assms all_frames_plain[of "modesEntered st"]
  by (auto simp: scanInv_def push_def)

lemma scanInv_mono: "scanInv s i st \<Longrightarrow> i \<le> j \<Longrightarrow> scanInv s j st"
  by (auto simp: scanInv_def)

lemma scanInv_open:
  assumes "scanInv s i st" "modesEntered st \<noteq> []"
    "mode (last (modesEntered st)) \<noteq> CommentMode"
  shows "scanInv s (i + 1 + 1)
     ((push f st)\<lparr>comment := emptyComment\<lparr>ctype := t, start := Some i, inlineAfter := a\<rparr>\<rparr>)"
  using assms all_frames_plain[of "modesEntered st"]
  by (auto simp: scanInv_def push_def)

lemma scanInv_close:
  assumes inv: "scanInv s i st" and ne: "modesEntered st \<noteq> []"
    and top: "mode (last (modesEntered st)) = CommentMode"
    and e: "int i - 1 \<le> e" "e < int (length s)"
  shows "scanInv s j
     ((pop st)\<lparr>result := result st @
         [(comment st)\<lparr>cend := Some e,
            raws := Some \<lparr>startToken = m1, left = m2,
                          rtext = substring s (startArg (comment st)) (e + 1),
                          right = m4, endToken = m5\<rparr>,
            ctext := m3, inlineBefore := b\<rparr>],
        comment := emptyComment\<rparr>)"
proof -
  obtain k where k: "start (comment st) = Some k" "k + 2 \<le> i"
    using inv ne top by (auto simp: scanInv_def)
  have "spanOf s ((comment st)\<lparr>cend := Some e,
            raws := Some \<lparr>startToken = m1, left = m2,
                          rtext = substring s (startArg (comment st)) (e + 1),
                          right = m4, endToken = m5\<rparr>,
            ctext := m3, inlineBefore := b\<rparr>)"
    using k e by (simp add: spanOf_def startArg_def)
  then show ?thesis
    using inv popped_frames_plain[of "modesEntered st"]
    by (auto simp: scanInv_def pop_def)
qed

lemma step_scanInv:
  assumes st: "step s i st = Inr (i', st')" and i: "i < length s" and inv: "scanInv s i st"
  shows "scanInv s (i' + 1) st'"
proof -
  have ne: "modesEntered st \<noteq> []"
    using st by (auto simp: step_def split: if_splits)
  define cur where "cur = last (modesEntered st)"
  consider (quote) "s ! i = 0x22 \<or> s ! i = 0x27" "caseQuote s i cur st = Inr (i', st')"
    | (opn) "caseOpenParen s i cur st = Inr (i', st')"
    | (cls) "caseCloseParen s i cur st = Inr (i', st')"
    | (slash) "caseSlash s i cur st = Inr (i', st')"
    | (star) "caseStar s i cur st = Inr (i', st')"
    | (dflt) "caseDefault s i cur st = Inr (i', st')"
    using st ne by (auto simp: step_def Let_def cur_def split: if_splits)
  then show ?thesis
  proof cases
    case quote
    then show ?thesis
      using inv ne scanInv_pop[OF inv, of "i + 1"] scanInv_mono[OF inv, of "i + 1"]
        scanInv_push_plain[OF inv ne, of _ "i + 1"]
      by (auto simp: caseQuote_def cur_def split: if_splits)
  next
    case opn
    then show ?thesis
      using inv ne scanInv_mono[OF inv, of "i + 1"]
        scanInv_push_plain[OF inv ne, of _ "i + 1"]
      by (auto simp: caseOpenParen_def cur_def split: if_splits option.splits)
  next
    case cls
    then show ?thesis
      using inv ne scanInv_pop[OF inv, of "i + 1"] scanInv_mono[OF inv, of "i + 1"]
      by (auto simp: caseCloseParen_def cur_def split: if_splits)
  next
    case slash
    then show ?thesis
      using inv ne scanInv_mono[OF inv, of "i + 1"] scanInv_open[OF inv ne]
      by (auto simp: caseSlash_def cur_def split: if_splits)
  next
    case star
    show ?thesis
    proof (cases "mode cur = CommentMode \<and> character cur = Some (js ''/*'') \<and>
         nextChar s i = Some 0x2F")
      case True
      then have "int i - 1 \<le> int i + 1" "int i + 1 < int (length s)"
        using nextChar_Some[of s i] by auto
      then show ?thesis
        using star True scanInv_close[OF inv ne, of "int i + 1" "i + 1 + 1"]
        by (auto simp: caseStar_def cur_def Let_def split: option.splits prod.splits)
    next
      case False
      then show ?thesis
        using star scanInv_mono[OF inv, of "i + 1"]
        by (auto simp: caseStar_def)
    qed
  next
    case dflt
    show ?thesis
    proof (cases "(s ! i = 0x0A \<or> int i = int (length s) - 1) \<and>
         mode cur = CommentMode \<and> character cur = Some (js ''//'')")
      case True
      define e where "e = (if s ! i = 0x0A then int i - 1 else int i)"
      have "int i - 1 \<le> e" "e < int (length s)"
        using i by (auto simp: e_def)
      then show ?thesis
        using dflt True scanInv_close[OF inv ne, of e "i + 1"]
        by (auto simp: caseDefault_def cur_def Let_def e_def split: option.splits prod.splits)
    next
      case False
      then show ?thesis
        using dflt scanInv_mono[OF inv, of "i + 1"]
        by (auto simp: caseDefault_def)
    qed
  qed
qed

lemma loop_scanInv:
  "loop s i st = Inr rs \<Longrightarrow> scanInv s i st \<Longrightarrow> \<forall>r\<in>set rs. spanOf s r"
proof (induction s i st rule: loop.induct)
  case (1 s i st)
  show ?case
  proof (cases "i < length s")
    case True
    then obtain i1 st1 where st: "step s i st = Inr (i1, st1)"
      and rest: "loop s (i1 + 1) st1 = Inr rs"
      using "1.prems"(1) by (subst (asm) loop.simps) (auto split: sum.splits)
    have "scanInv s (i1 + 1) st1" using st True "1.prems"(2) by (rule step_scanInv)
    then show ?thesis using "1.IH" True st rest by simp
  next
    case False
    then show ?thesis using "1.prems" by (subst (asm) loop.simps) (auto simp: scanInv_def)
  qed
qed

lemma scanInv_initial: "scanInv s 0 initialState"
  by (simp add: scanInv_def initialState_def)

lemma substring_span:
  assumes "int k < e" "e < int (length s)"
  shows "substring s (int k) (e + 1) = take (nat e + 1 - k) (drop k s)"
proof -
  have "nat (e + 1 - int k) = nat e + 1 - k" using assms by linarith
  then show ?thesis using assms by (simp add: substring_def Let_def min_def max_def)
qed

section \<open>Scanning a given block comment\<close>

lemma nth_middle: "k < length c \<Longrightarrow> (p @ c @ q) ! (length p + k) = c ! k"
  by (simp add: nth_append)

lemma nextChar_middle:
  "k + 1 < length c \<Longrightarrow> nextChar (p @ c @ q) (length p + k) = Some (c ! (k + 1))"
  using nth_middle[of "k + 1" c p q] by (simp add: nextChar_def add.assoc)

lemma substring_middle:
  "substring (p @ c @ q) (int (length p)) (int (length p) + int (length c)) = c"
  by (simp add: substring_def Let_def min_def max_def)

lemma hello_chars:
  "length (js ''/*  hello  */'') = 13"
  "js ''/*  hello  */'' ! 0 = 0x2F" "js ''/*  hello  */'' ! 1 = 0x2A"
  "js ''/*  hello  */'' ! 11 = 0x2A" "js ''/*  hello  */'' ! 12 = 0x2F"
  "\<forall>k\<in>{2..<11}. js ''/*  hello  */'' ! k \<noteq> 0x2A"
  "js ''/*  hello  */'' ! Suc 0 = 0x2A"
  by code_simp+

lemma hello_groups:
  "execCssComment (js ''/*  hello  */'') =
     Some (js ''/*'', js ''  '', js ''hello'', js ''  '', js ''*/'')"
  by code_simp

lemma hello_scan:
  assumes s: "s = p @ js ''/*  hello  */'' @ q"
    and stack: "modesEntered st \<noteq> []" "mode (last (modesEntered st)) \<noteq> CommentMode"
  shows "loop s (length p) st =
     loop s (length p + 13)
       (st\<lparr>result := result st @
           [\<lparr>ctype = Some Css, start = Some (length p),
             inlineAfter = Some (noLineStartBefore (substring s 0 (int (length p)))),
             cend = Some (int (length p) + 12),
             raws = Some \<lparr>startToken = js ''/*'', left = js ''  '',
                          rtext = js ''/*  hello  */'', right = js ''  '',
                          endToken = Some (js ''*/'')\<rparr>,
             ctext = Some (js ''hello''),
             inlineBefore =
               Some (codeBeforeNewline (substringFrom s (int (length p) + 13)))\<rparr>],
          comment := emptyComment\<rparr>)"
    (is "_ = loop s _ ?st2")
proof -
  let ?c = "js ''/*  hello  */''"
  let ?n = "length p"
  define st1 where "st1 =
    (push \<lparr>mode = CommentMode, character = Some (js ''/*'')\<rparr> st)
       \<lparr>comment := emptyComment
          \<lparr>ctype := Some Css, start := Some ?n,
           inlineAfter := Some (noLineStartBefore (substring s 0 (int ?n)))\<rparr>\<rparr>"
  have len: "length s = ?n + 13 + length q" using s by (simp add: hello_chars)
  have at: "\<And>k. k < 13 \<Longrightarrow> s ! (?n + k) = ?c ! k"
    unfolding s by (rule nth_middle) (simp add: hello_chars)
  have nx: "\<And>k. k + 1 < 13 \<Longrightarrow> nextChar s (?n + k) = Some (?c ! (k + 1))"
    unfolding s by (rule nextChar_middle) (simp add: hello_chars)
  have "s ! ?n = 0x2F" "nextChar s ?n = Some 0x2A"
    using at[of 0] nx[of 0] by (simp_all add: hello_chars)
  then have "step s ?n st = Inr (?n + 1, st1)"
    unfolding st1_def using stack by (intro step_slash_opens_block_comment)
  then have "loop s ?n st = loop s (?n + 1 + 1) st1"
    using len by (intro loop_step) simp_all
  then have first: "loop s ?n st = loop s (?n + 2) st1"
    by simp
  have st1: "modesEntered st1 \<noteq> []" "mode (last (modesEntered st1)) = CommentMode"
    "character (last (modesEntered st1)) = Some (js ''/*'')"
    by (simp_all add: st1_def push_def)
  have "\<forall>j\<in>{?n + 2..<?n + 11}. \<not> (s ! j = 0x2A \<and> nextChar s j = Some 0x2F)"
  proof
    fix j assume j: "j \<in> {?n + 2..<?n + 11}"
    then have "s ! (?n + (j - ?n)) = ?c ! (j - ?n)" by (intro at) auto
    moreover have "j - ?n \<in> {2..<11}" using j by auto
    then have "?c ! (j - ?n) \<noteq> 0x2A" using hello_chars(6) by blast
    ultimately show "\<not> (s ! j = 0x2A \<and> nextChar s j = Some 0x2F)" using j by auto
  qed
  then have second: "loop s (?n + 2) st1 = loop s (?n + 11) st1"
    using st1 len by (intro loop_across_block_comment) simp_all
  have close: "s ! (?n + 11) = 0x2A" "nextChar s (?n + 11) = Some 0x2F"
    using at[of 11] nx[of 11] by (simp_all add: hello_chars)
  have raw: "substring s (startArg (comment st1)) (int (?n + 11) + 1 + 1) = ?c"
    using substring_middle[of p ?c q]
    by (simp add: st1_def startArg_def emptyComment_def s hello_chars add.commute)
  have "step s (?n + 11) st1 = Inr (?n + 11 + 1, ?st2)"
    using st1 close raw
    by (simp add: step_def caseStar_def Let_def hello_groups)
       (simp add: st1_def push_def pop_def emptyComment_def add.commute)
  then have "loop s (?n + 11) st1 = loop s (?n + 11 + 1 + 1) ?st2"
    using len by (intro loop_step) simp_all
  also have "?n + 11 + 1 + 1 = ?n + 13"
    by simp
  finally have third: "loop s (?n + 11) st1 = loop s (?n + 13) ?st2" .
  show ?thesis
    by (rule trans[OF first], rule trans[OF second], rule third)
qed

section \<open>Failure paths of the scanner\<close>

text \<open>
  C1: for every input text \<open>findCommentsInRaws\<close> runs to completion and
  returns a list of records, and no error is ever raised.  The code does not
  do so: on the input \<open>)a\<close> the closing parenthesis pops the bottom entry of
  \<open>modesEntered\<close>, and the next run of the loop body reads \<open>.mode\<close> of
  \<open>undefined\<close>, which throws a \<open>TypeError\<close>.
\<close>

theorem unmatched_paren_throws:
  "findCommentsInRaws (js '')a'') = Inl TypeError"
  by code_simp

text \<open>
  Two more inputs on which an error is thrown: the pattern of line 68 finds no
  match before an opening parenthesis that follows \<open>$a\<close>, and the pattern of
  line 147 finds none in a line comment that holds a carriage return followed
  by other text.  In both, an index of \<open>null\<close> is read.
\<close>

lemma unknown_prefix_paren_throws:
  "findCommentsInRaws (js ''$a(1)'') = Inl TypeError"
  by code_simp

lemma carriage_return_in_line_comment_throws:
  "findCommentsInRaws (js ''//a'' @ [0x0D] @ js ''b'') = Inl TypeError"
  by code_simp

text \<open>
  C3: at every step of the scan of every input the array \<open>modesEntered\<close> is
  non-empty, its bottom entry of mode normal always present, so that an
  unmatched \<open>)\<close> does not remove it.  The code does remove it: after the
  loop body has run on the input \<open>)\<close> the array is empty.
\<close>

theorem unmatched_paren_empties_stack:
  "step (js '')'') 0 initialState = Inr (0, initialState\<lparr>modesEntered := []\<rparr>)"
  by code_simp

section \<open>Comment markers inside strings\<close>

text \<open>
  C2: a string literal that contains \<open>/*\<close>, \<open>*/\<close> or \<open>//\<close> never
  contributes a record, and the input \<open>a { content: "// not a comment"; }\<close>
  yields no record.  The case of \<open>/\<close> in the code tests for the modes comment
  and url only, so the \<open>//\<close> inside the string opens a comment, which is
  closed at the last character of the input: one record is returned, starting
  at index 14, inside the string.
\<close>

theorem string_content_opens_comment:
  "findCommentsInRaws (js ''a { content: \"// not a comment\"; }'') =
     Inr [\<lparr>ctype = Some DoubleSlash, start = Some 14, inlineAfter = Some True,
           cend = Some 33,
           raws = Some \<lparr>startToken = js ''//'', left = js '' '',
                        rtext = js ''// not a comment\"; }'', right = [],
                        endToken = None\<rparr>,
           ctext = Some (js ''not a comment\"; }''), inlineBefore = Some False\<rparr>]"
  by code_simp

section \<open>Line comments at the end of the input\<close>

text \<open>
  C4: a line comment still open at the end of the input is closed and emitted,
  its end the last index of the input.  The code closes line comments in the
  default case of the switch only, so a line comment whose last character is
  one of the characters with a case of their own (a quote, a parenthesis,
  \<open>/\<close> or \<open>*\<close>) is never closed: the input \<open>a{color:red} //note (1)\<close>
  yields no record.
\<close>

theorem line_comment_at_end_dropped:
  "findCommentsInRaws (js ''a{color:red} //note (1)'') = Inr []"
  by code_simp

text \<open>
  The same happens to an empty line comment at the end of the input, since the
  loop leaps over the second slash and ends.  The example of the claim itself,
  \<open>a{color:red} //note\<close>, is scanned as the claim says.
\<close>

lemma empty_comment_at_end_dropped:
  "findCommentsInRaws (js ''a{color:red} //'') = Inr []"
  by code_simp

lemma line_comment_at_end_example:
  "findCommentsInRaws (js ''a{color:red} //note'') =
     Inr [\<lparr>ctype = Some DoubleSlash, start = Some 13, inlineAfter = Some True,
           cend = Some 18,
           raws = Some \<lparr>startToken = js ''//'', left = [], rtext = js ''//note'',
                        right = [], endToken = None\<rparr>,
           ctext = Some (js ''note''), inlineBefore = Some False\<rparr>]"
  by code_simp

section \<open>The flags inlineAfter and inlineBefore\<close>

text \<open>
  C5: \<open>inlineAfter\<close> is true exactly when code precedes the comment on its
  line, and false when the comment is the first token on its line, also at the
  very start of the input.  The code sets the flag when the text before the
  comment does not end in a line feed followed by white space only, which is
  the case for every comment on the first line: for the input \<open>/* c */\<close> the
  flag is true.
\<close>

theorem first_comment_inline_after:
  "map_sum id (map inlineAfter) (findCommentsInRaws (js ''/* c */'')) = Inr [Some True]"
  by code_simp

text \<open>The example of the claim, \<open>a {} /* c */\<close>, has the flag set as well.\<close>

lemma inline_after_example:
  "map_sum id (map inlineAfter) (findCommentsInRaws (js ''a {} /* c */'')) = Inr [Some True]"
  by code_simp

text \<open>
  C6: \<open>inlineBefore\<close> of a block comment is true exactly when code follows
  the comment before the next line break, also when that code is followed by
  the end of the input, and not when the code is on a later line; for a line
  comment it is false.  The pattern of line 132 asks for one run of
  non-space characters followed by a line feed, and its leading \<open>\s*?\<close> passes
  over line feeds: for \<open>/* c */ a\<close> the flag is false, and for
  \<open>/* c */\<close> followed by a line feed, \<open>a\<close> and a line feed it is true.
\<close>

theorem inline_before_misses_code_and_crosses_lines:
  "map_sum id (map inlineBefore) (findCommentsInRaws (js ''/* c */ a'')) = Inr [Some False] \<and>
   map_sum id (map inlineBefore)
     (findCommentsInRaws (js ''/* c */'' @ [0x0A] @ js ''a'' @ [0x0A])) = Inr [Some True]"
  by code_simp

text \<open>Two words after the comment on its line leave the flag false, too.\<close>

lemma inline_before_two_words:
  "map_sum id (map inlineBefore)
     (findCommentsInRaws (js ''/* c */ a b'' @ [0x0A])) = Inr [Some False]"
  by code_simp

section \<open>Double slashes in a url argument\<close>

lemma url_slash_general:
  assumes reach: "scanTo s i 0 initialState = Inr (i, st)"
    and i: "i < length s"
    and stack: "modesEntered st \<noteq> []" "mode (last (modesEntered st)) = UrlMode"
    and chars: "s ! i = 0x2F" "nextChar s i = Some 0x2F"
    and res: "findCommentsInRaws s = Inr rs"
  shows "step s i st = Inr (i, st) \<and> (\<forall>r\<in>set rs. start r \<noteq> Some i)"
proof -
  have st: "step s i st = Inr (i, st)"
    using stack chars by (rule step_slash_in_url)
  have "findCommentsInRaws s = loop s i st"
    using reach by (rule findCommentsInRaws_scanTo)
  also have "\<dots> = loop s (i + 1) st"
    using i st by (rule loop_step)
  finally have run: "loop s (i + 1) st = Inr rs" using res by simp
  have "startsAvoid i st"
    using reach by (intro startsBelow_avoid scanTo_reached_startsBelow)
  then have "\<forall>r\<in>set rs. start r \<noteq> Some i"
    using run by (intro loop_startsAvoid[of s "i + 1" st rs i]) simp_all
  with st show ?thesis by simp
qed

lemma calc_url_example: "findCommentsInRaws (js ''calc(url(//x))'') = Inr []"
  by code_simp

text \<open>
  C7: a \<open>//\<close> met while the innermost open context is a \<open>url(\<close> argument
  never opens a comment, the suppression holds for the innermost url context
  only, and \<open>calc(url(//x))\<close> yields no record.  First part: whenever the
  loop of \<open>findCommentsInRaws\<close> arrives at an index \<open>i\<close> with an entry of
  mode url on top, and a slash stands at \<open>i\<close> and at \<open>i + 1\<close>, the loop body
  changes nothing and no record of the result starts at \<open>i\<close>.  Second part:
  with any other entry than url or comment on top (parentheses, a string, the
  bottom entry), whatever lies beneath, the same two slashes open a line
  comment.  Third part: the example.
\<close>

theorem url_suppresses_double_slash:
  "(\<forall>s i st rs.
      scanTo s i 0 initialState = Inr (i, st) \<and> i < length s \<and>
      modesEntered st \<noteq> [] \<and> mode (last (modesEntered st)) = UrlMode \<and>
      s ! i = 0x2F \<and> nextChar s i = Some 0x2F \<and> findCommentsInRaws s = Inr rs \<longrightarrow>
        step s i st = Inr (i, st) \<and> Some i \<notin> set (map start rs)) \<and>
   (\<forall>s i st.
      modesEntered st \<noteq> [] \<and> mode (last (modesEntered st)) \<noteq> UrlMode \<and>
      mode (last (modesEntered st)) \<noteq> CommentMode \<and>
      s ! i = 0x2F \<and> nextChar s i = Some 0x2F \<longrightarrow>
        step s i st =
          Inr (i + 1,
               (push \<lparr>mode = CommentMode, character = Some (js ''//'')\<rparr> st)
                 \<lparr>comment := emptyComment
                    \<lparr>ctype := Some DoubleSlash, start := Some i,
                     inlineAfter := Some (noLineStartBefore (substring s 0 (int i)))\<rparr>\<rparr>)) \<and>
   findCommentsInRaws (js ''calc(url(//x))'') = Inr []"
proof (intro conjI allI impI)
  fix s i st rs
  assume h: "scanTo s i 0 initialState = Inr (i, st) \<and> i < length s \<and>
      modesEntered st \<noteq> [] \<and> mode (last (modesEntered st)) = UrlMode \<and>
      s ! i = 0x2F \<and> nextChar s i = Some 0x2F \<and> findCommentsInRaws s = Inr rs"
  then have "step s i st = Inr (i, st) \<and> (\<forall>r\<in>set rs. start r \<noteq> Some i)"
    by (intro url_slash_general) simp_all
  then show "step s i st = Inr (i, st)" and "Some i \<notin> set (map start rs)"
    by auto
next
  fix s :: jsstring and i :: nat and st :: scan_state
  assume "modesEntered st \<noteq> [] \<and> mode (last (modesEntered st)) \<noteq> UrlMode \<and>
      mode (last (modesEntered st)) \<noteq> CommentMode \<and>
      s ! i = 0x2F \<and> nextChar s i = Some 0x2F"
  then show "step s i st =
          Inr (i + 1,
               (push \<lparr>mode = CommentMode, character = Some (js ''//'')\<rparr> st)
                 \<lparr>comment := emptyComment
                    \<lparr>ctype := Some DoubleSlash, start := Some i,
                     inlineAfter := Some (noLineStartBefore (substring s 0 (int i)))\<rparr>\<rparr>)"
    by (intro step_slash_opens_line_comment) simp_all
next
  show "findCommentsInRaws (js ''calc(url(//x))'') = Inr []"
    by (rule calc_url_example)
qed

text \<open>
  The first part at the input \<open>a{b:url(//x)} //c\<close> and index 8, where the loop
  arrives with the entries normal and url: the only record of the result is
  the line comment that starts at index 14.
\<close>

theorem url_suppresses_double_slash_witness:
  "scanTo (js ''a{b:url(//x)} //c'') 8 0 initialState = Inr (8, urlState) \<and>
   8 < length (js ''a{b:url(//x)} //c'') \<and>
   modesEntered urlState \<noteq> [] \<and> mode (last (modesEntered urlState)) = UrlMode \<and>
   js ''a{b:url(//x)} //c'' ! 8 = 0x2F \<and>
   nextChar (js ''a{b:url(//x)} //c'') 8 = Some 0x2F \<and>
   findCommentsInRaws (js ''a{b:url(//x)} //c'') =
     Inr [\<lparr>ctype = Some DoubleSlash, start = Some 14, inlineAfter = Some True,
           cend = Some 16,
           raws = Some \<lparr>startToken = js ''//'', left = [], rtext = js ''//c'',
                        right = [], endToken = None\<rparr>,
           ctext = Some (js ''c''), inlineBefore = Some False\<rparr>] \<and>
   step (js ''a{b:url(//x)} //c'') 8 urlState = Inr (8, urlState) \<and>
   Some 8 \<notin> set (map start
     [\<lparr>ctype = Some DoubleSlash, start = Some 14, inlineAfter = Some True,
       cend = Some 16,
       raws = Some \<lparr>startToken = js ''//'', left = [], rtext = js ''//c'',
                    right = [], endToken = None\<rparr>,
       ctext = Some (js ''c''), inlineBefore = Some False\<rparr>])"
proof -
  have h: "scanTo (js ''a{b:url(//x)} //c'') 8 0 initialState = Inr (8, urlState) \<and>
   8 < length (js ''a{b:url(//x)} //c'') \<and>
   modesEntered urlState \<noteq> [] \<and> mode (last (modesEntered urlState)) = UrlMode \<and>
   js ''a{b:url(//x)} //c'' ! 8 = 0x2F \<and>
   nextChar (js ''a{b:url(//x)} //c'') 8 = Some 0x2F \<and>
   findCommentsInRaws (js ''a{b:url(//x)} //c'') =
     Inr [\<lparr>ctype = Some DoubleSlash, start = Some 14, inlineAfter = Some True,
           cend = Some 16,
           raws = Some \<lparr>startToken = js ''//'', left = [], rtext = js ''//c'',
                        right = [], endToken = None\<rparr>,
           ctext = Some (js ''c''), inlineBefore = Some False\<rparr>]"
    by code_simp
  from url_suppresses_double_slash h
  have "step (js ''a{b:url(//x)} //c'') 8 urlState = Inr (8, urlState) \<and>
   Some 8 \<notin> set (map start
     [\<lparr>ctype = Some DoubleSlash, start = Some 14, inlineAfter = Some True,
       cend = Some 16,
       raws = Some \<lparr>startToken = js ''//'', left = [], rtext = js ''//c'',
                    right = [], endToken = None\<rparr>,
       ctext = Some (js ''c''), inlineBefore = Some False\<rparr>])"
    by blast
  with h show ?thesis by blast
qed

section \<open>Unterminated block comments\<close>

lemma unterminated_general:
  assumes reach: "scanTo s i 0 initialState = Inr (i, st)"
    and stack: "modesEntered st \<noteq> []" "mode (last (modesEntered st)) \<noteq> CommentMode"
    and chars: "s ! i = 0x2F" "nextChar s i = Some 0x2A"
    and noclose: "\<forall>j\<in>{i + 2..<length s - 1}. \<not> (s ! j = 0x2A \<and> s ! (j + 1) = 0x2F)"
  shows "findCommentsInRaws s = Inr (result st) \<and> (\<forall>r\<in>set (result st). start r \<noteq> Some i)"
proof -
  define st1 where "st1 =
    (push \<lparr>mode = CommentMode, character = Some (js ''/*'')\<rparr> st)
       \<lparr>comment := emptyComment
          \<lparr>ctype := Some Css, start := Some i,
           inlineAfter := Some (noLineStartBefore (substring s 0 (int i)))\<rparr>\<rparr>"
  have i: "i + 1 < length s" using nextChar_Some[OF chars(2)] by simp
  have "step s i st = Inr (i + 1, st1)"
    unfolding st1_def using stack chars by (rule step_slash_opens_block_comment)
  then have first: "loop s i st = loop s (i + 1 + 1) st1"
    using i by (intro loop_step) simp_all
  have st1: "modesEntered st1 \<noteq> []" "mode (last (modesEntered st1)) = CommentMode"
    "character (last (modesEntered st1)) = Some (js ''/*'')" "result st1 = result st"
    by (simp_all add: st1_def push_def)
  have "\<forall>j\<in>{i + 1 + 1..<length s}. \<not> (s ! j = 0x2A \<and> nextChar s j = Some 0x2F)"
    using noclose by (auto simp: nextChar_def)
  then have "loop s (i + 1 + 1) st1 = loop s (length s) st1"
    using st1(1-3) i by (intro loop_across_block_comment) simp_all
  also have "\<dots> = Inr (result st)"
    using st1(4) by (simp add: loop_done)
  finally have "findCommentsInRaws s = Inr (result st)"
    using first findCommentsInRaws_scanTo[OF reach] by simp
  moreover have "\<forall>r\<in>set (result st). start r \<noteq> Some i"
    using scanTo_reached_startsBelow[OF reach] by (auto simp: startsBelow_def)
  ultimately show ?thesis by simp
qed

lemma never_closed_example: "findCommentsInRaws (js ''a{} /* never closed'') = Inr []"
  by code_simp

text \<open>
  C8: a block comment with no closing \<open>*/\<close> before the end of the input is
  not emitted, and no error is raised; \<open>a{} /* never closed\<close> yields no
  record.  Whenever the loop arrives at an index \<open>i\<close> outside a comment, with
  \<open>/*\<close> at \<open>i\<close> and no \<open>*/\<close> from \<open>i + 2\<close> on, the scan returns
  normally, and what it returns are the records emitted before \<open>i\<close>, none of
  which starts at \<open>i\<close>.
\<close>

theorem unterminated_block_comment_dropped:
  "(\<forall>s i st.
      scanTo s i 0 initialState = Inr (i, st) \<and>
      modesEntered st \<noteq> [] \<and> mode (last (modesEntered st)) \<noteq> CommentMode \<and>
      s ! i = 0x2F \<and> nextChar s i = Some 0x2A \<and>
      \<not> (\<exists>j\<in>{i + 2..<length s - 1}. s ! j = 0x2A \<and> s ! (j + 1) = 0x2F) \<longrightarrow>
        findCommentsInRaws s = Inr (result st) \<and>
        Some i \<notin> set (map start (result st))) \<and>
   findCommentsInRaws (js ''a{} /* never closed'') = Inr []"
proof (intro conjI allI impI)
  fix s i st
  assume h: "scanTo s i 0 initialState = Inr (i, st) \<and>
      modesEntered st \<noteq> [] \<and> mode (last (modesEntered st)) \<noteq> CommentMode \<and>
      s ! i = 0x2F \<and> nextChar s i = Some 0x2A \<and>
      \<not> (\<exists>j\<in>{i + 2..<length s - 1}. s ! j = 0x2A \<and> s ! (j + 1) = 0x2F)"
  then have "findCommentsInRaws s = Inr (result st) \<and>
      (\<forall>r\<in>set (result st). start r \<noteq> Some i)"
    by (intro unterminated_general) auto
  then show "findCommentsInRaws s = Inr (result st)"
    and "Some i \<notin> set (map start (result st))"
    by auto
next
  show "findCommentsInRaws (js ''a{} /* never closed'') = Inr []"
    by (rule never_closed_example)
qed

text \<open>The input \<open>a{} /* never closed\<close>, whose comment opens at index 4.\<close>

theorem unterminated_block_comment_dropped_witness:
  "scanTo (js ''a{} /* never closed'') 4 0 initialState = Inr (4, initialState) \<and>
   modesEntered initialState \<noteq> [] \<and>
   mode (last (modesEntered initialState)) \<noteq> CommentMode \<and>
   js ''a{} /* never closed'' ! 4 = 0x2F \<and>
   nextChar (js ''a{} /* never closed'') 4 = Some 0x2A \<and>
   \<not> (\<exists>j\<in>{4 + 2..<length (js ''a{} /* never closed'') - 1}.
      js ''a{} /* never closed'' ! j = 0x2A \<and> js ''a{} /* never closed'' ! (j + 1) = 0x2F) \<and>
   findCommentsInRaws (js ''a{} /* never closed'') = Inr (result initialState) \<and>
   Some 4 \<notin> set (map start (result initialState))"
proof -
  have h: "scanTo (js ''a{} /* never closed'') 4 0 initialState = Inr (4, initialState) \<and>
   modesEntered initialState \<noteq> [] \<and>
   mode (last (modesEntered initialState)) \<noteq> CommentMode \<and>
   js ''a{} /* never closed'' ! 4 = 0x2F \<and>
   nextChar (js ''a{} /* never closed'') 4 = Some 0x2A \<and>
   \<not> (\<exists>j\<in>{4 + 2..<length (js ''a{} /* never closed'') - 1}.
      js ''a{} /* never closed'' ! j = 0x2A \<and> js ''a{} /* never closed'' ! (j + 1) = 0x2F)"
    by code_simp
  from unterminated_block_comment_dropped h
  have "findCommentsInRaws (js ''a{} /* never closed'') = Inr (result initialState) \<and>
   Some 4 \<notin> set (map start (result initialState))"
    by blast
  with h show ?thesis by blast
qed

section \<open>The parts of a block comment\<close>

text \<open>
  C9: for an input that contains the block comment \<open>/*  hello  */\<close>, opened
  in a normal context, the record emitted has the start token \<open>/*\<close>, two
  spaces as \<open>left\<close>, the text \<open>hello\<close>, two spaces as \<open>right\<close> and the end
  token \<open>*/\<close>.  The input is \<open>p @ /*  hello  */ @ q\<close>, the loop arrives at
  the index \<open>length p\<close> outside a comment (in mode normal in particular), and
  the scan returns \<open>rs\<close>: then \<open>rs\<close> holds, after the records emitted
  before, a record of these parts that starts at \<open>length p\<close>.
\<close>

theorem block_comment_decomposition:
  assumes "scanTo s (length p) 0 initialState = Inr (length p, st)"
    and "s = p @ js ''/*  hello  */'' @ q"
    and "modesEntered st \<noteq> []" "mode (last (modesEntered st)) \<noteq> CommentMode"
    and "findCommentsInRaws s = Inr rs"
  shows "\<exists>r more. rs = result st @ r # more \<and>
           ctype r = Some Css \<and> start r = Some (length p) \<and>
           cend r = Some (int (length p) + 12) \<and>
           raws r = Some \<lparr>startToken = js ''/*'', left = js ''  '',
                           rtext = js ''/*  hello  */'', right = js ''  '',
                           endToken = Some (js ''*/'')\<rparr> \<and>
           ctext r = Some (js ''hello'')"
proof -
  have "findCommentsInRaws s = loop s (length p) st"
    using assms(1) by (rule findCommentsInRaws_scanTo)
  then have "loop s (length p) st = Inr rs" using assms(5) by simp
  then obtain more where "rs = result
       (st\<lparr>result := result st @
           [\<lparr>ctype = Some Css, start = Some (length p),
             inlineAfter = Some (noLineStartBefore (substring s 0 (int (length p)))),
             cend = Some (int (length p) + 12),
             raws = Some \<lparr>startToken = js ''/*'', left = js ''  '',
                          rtext = js ''/*  hello  */'', right = js ''  '',
                          endToken = Some (js ''*/'')\<rparr>,
             ctext = Some (js ''hello''),
             inlineBefore =
               Some (codeBeforeNewline (substringFrom s (int (length p) + 13)))\<rparr>],
          comment := emptyComment\<rparr>) @ more"
    unfolding hello_scan[OF assms(2,3,4)] using loop_result_grows by blast
  then show ?thesis by simp
qed

text \<open>The input \<open>a {} /*  hello  */ b\<close>, with \<open>p\<close> the five characters \<open>a {} \<close>.\<close>

theorem block_comment_decomposition_witness:
  "scanTo (js ''a {} /*  hello  */ b'') (length (js ''a {} '')) 0 initialState =
     Inr (length (js ''a {} ''), initialState) \<and>
   js ''a {} /*  hello  */ b'' = js ''a {} '' @ js ''/*  hello  */'' @ js '' b'' \<and>
   modesEntered initialState \<noteq> [] \<and>
   mode (last (modesEntered initialState)) \<noteq> CommentMode \<and>
   findCommentsInRaws (js ''a {} /*  hello  */ b'') =
     Inr [\<lparr>ctype = Some Css, start = Some 5, inlineAfter = Some True, cend = Some 17,
           raws = Some \<lparr>startToken = js ''/*'', left = js ''  '',
                        rtext = js ''/*  hello  */'', right = js ''  '',
                        endToken = Some (js ''*/'')\<rparr>,
           ctext = Some (js ''hello''), inlineBefore = Some False\<rparr>] \<and>
   (\<exists>r more.
      [\<lparr>ctype = Some Css, start = Some 5, inlineAfter = Some True, cend = Some 17,
           raws = Some \<lparr>startToken = js ''/*'', left = js ''  '',
                        rtext = js ''/*  hello  */'', right = js ''  '',
                        endToken = Some (js ''*/'')\<rparr>,
           ctext = Some (js ''hello''), inlineBefore = Some False\<rparr>] =
        result initialState @ r # more \<and>
      ctype r = Some Css \<and> start r = Some (length (js ''a {} '')) \<and>
      cend r = Some (int (length (js ''a {} '')) + 12) \<and>
      raws r = Some \<lparr>startToken = js ''/*'', left = js ''  '',
                      rtext = js ''/*  hello  */'', right = js ''  '',
                      endToken = Some (js ''*/'')\<rparr> \<and>
      ctext r = Some (js ''hello''))"
proof -
  have h1: "scanTo (js ''a {} /*  hello  */ b'') (length (js ''a {} '')) 0 initialState =
     Inr (length (js ''a {} ''), initialState)"
    by code_simp
  have h2: "js ''a {} /*  hello  */ b'' = js ''a {} '' @ js ''/*  hello  */'' @ js '' b''"
    by code_simp
  have h3: "modesEntered initialState \<noteq> []"
    and h4: "mode (last (modesEntered initialState)) \<noteq> CommentMode"
    by code_simp+
  have h5: "findCommentsInRaws (js ''a {} /*  hello  */ b'') =
     Inr [\<lparr>ctype = Some Css, start = Some 5, inlineAfter = Some True, cend = Some 17,
           raws = Some \<lparr>startToken = js ''/*'', left = js ''  '',
                        rtext = js ''/*  hello  */'', right = js ''  '',
                        endToken = Some (js ''*/'')\<rparr>,
           ctext = Some (js ''hello''), inlineBefore = Some False\<rparr>]"
    by code_simp
  from block_comment_decomposition[OF h1 h2 h3 h4 h5] h1 h2 h3 h4 h5
  show ?thesis by blast
qed

section \<open>The raw text of a record\<close>

text \<open>
  C10: for every record that the scanner emits, \<open>raws.text\<close> is
  \<open>input.substring(start, end + 1)\<close>, the span of the comment with both
  markers.  Every record of the result has a start \<open>k\<close>, an end \<open>e\<close> with
  \<open>k < e < length s\<close> and raws whose text is that substring, which is the
  \<open>e + 1 - k\<close> characters of the input from index \<open>k\<close> on.
\<close>

theorem raw_text_is_comment_span:
  assumes "findCommentsInRaws s = Inr rs" "r \<in> set rs"
  shows "\<exists>k e rw. start r = Some k \<and> cend r = Some e \<and> raws r = Some rw \<and>
           int k < e \<and> e < int (length s) \<and>
           rtext rw = substring s (int k) (e + 1) \<and>
           rtext rw = take (nat e + 1 - k) (drop k s)"
proof -
  have "spanOf s r"
    using assms loop_scanInv[of s 0 initialState rs] scanInv_initial
    by (simp add: findCommentsInRaws_def)
  then show ?thesis
    unfolding spanOf_def using substring_span by metis
qed

text \<open>The record of the input \<open>a {} /* c */\<close>: start 5, end 11.\<close>

theorem raw_text_is_comment_span_witness:
  "findCommentsInRaws (js ''a {} /* c */'') =
     Inr [\<lparr>ctype = Some Css, start = Some 5, inlineAfter = Some True, cend = Some 11,
           raws = Some \<lparr>startToken = js ''/*'', left = js '' '', rtext = js ''/* c */'',
                        right = js '' '', endToken = Some (js ''*/'')\<rparr>,
           ctext = Some (js ''c''), inlineBefore = Some False\<rparr>] \<and>
   js ''/* c */'' = substring (js ''a {} /* c */'') 5 (11 + 1) \<and>
   js ''/* c */'' = take (nat 11 + 1 - 5) (drop 5 (js ''a {} /* c */''))"
proof -
  let ?r = "\<lparr>ctype = Some Css, start = Some 5, inlineAfter = Some True, cend = Some 11,
           raws = Some \<lparr>startToken = js ''/*'', left = js '' '', rtext = js ''/* c */'',
                        right = js '' '', endToken = Some (js ''*/'')\<rparr>,
           ctext = Some (js ''c''), inlineBefore = Some False\<rparr>"
  have h: "findCommentsInRaws (js ''a {} /* c */'') = Inr [?r]"
    by code_simp
  have "?r \<in> set [?r]" by simp
  from raw_text_is_comment_span[OF h this]
  show ?thesis using h by auto
qed

end
